theory Spec2Isabelle
  imports Main "HOL-Library.Multiset"
begin

section \<open>Python values used by the two example scripts\<close>

text \<open>
  The repository holds two scripts under \<open>examples/\<close>:
  \<open>build_shakespeare_hdf5.py\<close> (chunker \<open>chunk_text_by_tokens\<close>, writer
  \<open>persist_to_hdf5\<close>, query \<open>topk_cosine_from_hdf5\<close>) and
  \<open>shakespeare_hdf5_vectors.py\<close> (chunker \<open>chunk_by_tokens\<close>, writer
  \<open>write_hdf5\<close>, builder \<open>build_if_missing\<close>, query \<open>query_hdf5\<close>).
  Every exception the modelled code can raise is a value of \<open>py_error\<close>;
  a function that can raise returns \<open>py_error + 'a\<close>.
\<close>

datatype py_error =
    AssertionError
  | ValueError
  | RuntimeError
  | FileNotFoundError
  | IndexError
  | KeyError
  | DownloadError

text \<open>
  The tokenizer is an external collaborator: \<open>encode\<close> turns text into token ids,
  \<open>decode\<close> turns token ids back into text. Nothing is assumed about either.
\<close>

record tokenizer =
  tk_encode :: "string \<Rightarrow> int list"
  tk_decode :: "int list \<Rightarrow> string"

text \<open>
  \<open>range(start, stop, step)\<close>: a zero step raises \<open>ValueError\<close>; otherwise the
  values \<open>start + i * step\<close> that lie before \<open>stop\<close> in the direction of the step.
\<close>

definition range_len :: "int \<Rightarrow> int \<Rightarrow> int \<Rightarrow> nat" where
  "range_len start stop step =
     (if 0 < step then (if start < stop then nat ((stop - start - 1) div step + 1) else 0)
      else (if stop < start then nat ((start - stop - 1) div (- step) + 1) else 0))"

definition py_range :: "int \<Rightarrow> int \<Rightarrow> int \<Rightarrow> py_error + int list" where
  "py_range start stop step =
     (if step = 0 then Inl ValueError
      else Inr (map (\<lambda>i. start + int i * step) [0..<range_len start stop step]))"

text \<open>
  \<open>xs[lo:hi]\<close>: a negative bound counts from the end, and both bounds are clipped to
  the list.
\<close>

definition clip_index :: "nat \<Rightarrow> int \<Rightarrow> nat" where
  "clip_index n i = (if i < 0 then nat (max (i + int n) 0) else min (nat i) n)"

definition py_slice :: "'a list \<Rightarrow> int \<Rightarrow> int \<Rightarrow> 'a list" where
  "py_slice xs lo hi =
     (let a = clip_index (length xs) lo; b = clip_index (length xs) hi
      in take (b - a) (drop a xs))"

text \<open>
  \<open>str.strip()\<close> removes leading and trailing white space. A \<open>string\<close> here is a
  list of bytes, so the white space of the model is the ASCII part of Python's:
  tab, line feed, vertical tab, form feed, carriage return, the four separators
  \<open>0x1c\<close> to \<open>0x1f\<close>, and the blank.
\<close>

definition is_space :: "char \<Rightarrow> bool" where
  "is_space c = (let k = (of_char c :: nat) in (9 \<le> k \<and> k \<le> 13) \<or> (28 \<le> k \<and> k \<le> 32))"

definition py_strip :: "string \<Rightarrow> string" where
  "py_strip s = rev (dropWhile is_space (rev (dropWhile is_space s)))"

section \<open>The chunkers\<close>

subsection \<open>\<open>chunk_text_by_tokens\<close> (build\_shakespeare\_hdf5.py)\<close>

text \<open>
  The loop \<open>for start in range(0, n, step)\<close> runs over the list of starts; the
  \<open>break\<close> after the window whose end reaches \<open>n\<close> returns the chunks collected so
  far and leaves the remaining starts unvisited.
\<close>

fun chunk_text_loop ::
  "tokenizer \<Rightarrow> int list \<Rightarrow> int \<Rightarrow> int list \<Rightarrow> (string \<times> int \<times> int) list
     \<Rightarrow> (string \<times> int \<times> int) list" where
  "chunk_text_loop tk ids max_tokens [] chunks = chunks"
| "chunk_text_loop tk ids max_tokens (start # rest) chunks =
     (let n = int (length ids);
          end = min (start + max_tokens) n;
          piece_ids = py_slice ids start end;
          piece_text = tk_decode tk piece_ids;
          chunks' = chunks @ [(piece_text, start, end)]
      in if n \<le> end then chunks'
         else chunk_text_loop tk ids max_tokens rest chunks')"

definition chunk_text_by_tokens ::
  "tokenizer \<Rightarrow> string \<Rightarrow> int \<Rightarrow> int \<Rightarrow> py_error + (string \<times> int \<times> int) list" where
  "chunk_text_by_tokens tk text max_tokens stride =
     (if \<not> (0 < max_tokens \<and> 0 \<le> stride \<and> stride < max_tokens) then Inl AssertionError
      else
        let ids = tk_encode tk text; n = int (length ids)
        in if n = 0 then Inr []
           else
             let step = max_tokens - stride
             in case py_range 0 n step of
                  Inl e \<Rightarrow> Inl e
                | Inr starts \<Rightarrow> Inr (chunk_text_loop tk ids max_tokens starts []))"

subsection \<open>\<open>chunk_by_tokens\<close> (shakespeare\_hdf5\_vectors.py)\<close>

text \<open>
  This chunker returns the decoded, stripped texts only. It has no precondition on
  its parameters, it visits every start of the range (its only \<open>break\<close> is on an
  empty window), and it keeps a window only when its stripped text is not empty.
\<close>

fun chunk_by_loop ::
  "tokenizer \<Rightarrow> int list \<Rightarrow> int \<Rightarrow> int list \<Rightarrow> string list \<Rightarrow> string list" where
  "chunk_by_loop tk ids max_tokens [] chunks = chunks"
| "chunk_by_loop tk ids max_tokens (start # rest) chunks =
     (let window = py_slice ids start (start + max_tokens)
      in if window = [] then chunks
         else
           let chunk_text = py_strip (tk_decode tk window)
           in chunk_by_loop tk ids max_tokens rest
                (if chunk_text \<noteq> [] then chunks @ [chunk_text] else chunks))"

definition chunk_by_tokens ::
  "tokenizer \<Rightarrow> string \<Rightarrow> int \<Rightarrow> int \<Rightarrow> py_error + string list" where
  "chunk_by_tokens tk text max_tokens overlap =
     (let ids = tk_encode tk text
      in if ids = [] then Inr []
         else
           let step = (if overlap < max_tokens then max_tokens - overlap else max_tokens)
           in case py_range 0 (int (length ids)) step of
                Inl e \<Rightarrow> Inl e
              | Inr starts \<Rightarrow> Inr (chunk_by_loop tk ids max_tokens starts []))"

text \<open>The offsets of a list of chunks, and the window a pair of offsets denotes.\<close>

definition offsets :: "(string \<times> int \<times> int) list \<Rightarrow> (int \<times> int) list" where
  "offsets chunks = map snd chunks"

definition window_at :: "int \<Rightarrow> int \<Rightarrow> int \<Rightarrow> nat \<Rightarrow> int \<times> int" where
  "window_at n max_tokens step i = (int i * step, min (int i * step + max_tokens) n)"

definition text_chunk ::
  "tokenizer \<Rightarrow> int list \<Rightarrow> int \<Rightarrow> int \<Rightarrow> nat \<Rightarrow> string \<times> int \<times> int" where
  "text_chunk tk ids max_tokens step i =
     (case window_at (int (length ids)) max_tokens step i of
        (a, b) \<Rightarrow> (tk_decode tk (py_slice ids a b), a, b))"

text \<open>
  The stripped texts of the windows \<open>chunk_by_tokens\<close> visits: one for every start of
  its range.
\<close>

definition window_texts :: "tokenizer \<Rightarrow> string \<Rightarrow> int \<Rightarrow> int \<Rightarrow> string list" where
  "window_texts tk text max_tokens overlap =
     (let ids = tk_encode tk text;
          step = (if overlap < max_tokens then max_tokens - overlap else max_tokens)
      in map (\<lambda>i. py_strip (tk_decode tk (py_slice ids (int i * step) (int i * step + max_tokens))))
           [0..<range_len 0 (int (length ids)) step])"

text \<open>A character-level tokenizer, used where a statement is run on a concrete input.\<close>

definition char_tokenizer :: tokenizer where
  "char_tokenizer =
     \<lparr> tk_encode = map (\<lambda>c. int (of_char c)), tk_decode = map (\<lambda>i. char_of (nat i)) \<rparr>"

section \<open>Range index and store writer (shakespeare\_hdf5\_vectors.py)\<close>

text \<open>One entry of the range index \<open>works_index\<close>: a work and its half-open row range.\<close>

record works_rec =
  work_id :: int
  title :: string
  start_row :: int
  end_row :: int

text \<open>
  The variables the chunking loop of \<open>build_if_missing\<close> updates: the chunk texts, the
  work id of every chunk, the range index and the row cursor.
\<close>

record build_state =
  all_chunks :: "string list"
  all_work_ids :: "int list"
  works_index :: "works_rec list"
  row_cursor :: int

definition init_state :: build_state where
  "init_state = \<lparr> all_chunks = [], all_work_ids = [], works_index = [], row_cursor = 0 \<rparr>"

text \<open>
  One iteration of \<open>for work_id, (title, body) in enumerate(works)\<close>: chunk the body
  with \<open>max_tokens=256, overlap=32\<close>; \<open>continue\<close> when there is no chunk; otherwise
  extend the lists, advance the cursor and append the entry.
\<close>

definition index_work ::
  "tokenizer \<Rightarrow> build_state \<Rightarrow> int \<times> string \<times> string \<Rightarrow> py_error + build_state" where
  "index_work tk st w =
     (case w of (wid, ttl, body) \<Rightarrow>
        (case chunk_by_tokens tk body 256 32 of
           Inl e \<Rightarrow> Inl e
         | Inr chunks \<Rightarrow>
             if chunks = [] then Inr st
             else
               let start = row_cursor st;
                   cursor = row_cursor st + int (length chunks)
               in Inr \<lparr> all_chunks = all_chunks st @ chunks,
                        all_work_ids = all_work_ids st @ replicate (length chunks) wid,
                        works_index = works_index st @
                          [\<lparr> work_id = wid, title = ttl, start_row = start, end_row = cursor \<rparr>],
                        row_cursor = cursor \<rparr>))"

fun index_works ::
  "tokenizer \<Rightarrow> build_state \<Rightarrow> (int \<times> string \<times> string) list \<Rightarrow> py_error + build_state" where
  "index_works tk st [] = Inr st"
| "index_works tk st (w # ws) =
     (case index_work tk st w of Inl e \<Rightarrow> Inl e | Inr st' \<Rightarrow> index_works tk st' ws)"

definition py_enumerate :: "'a list \<Rightarrow> (int \<times> 'a) list" where
  "py_enumerate xs = zip (map int [0..<length xs]) xs"

definition chunk_works :: "tokenizer \<Rightarrow> (string \<times> string) list \<Rightarrow> py_error + build_state" where
  "chunk_works tk works = index_works tk init_state (py_enumerate works)"

text \<open>
  The number of chunks a body yields, and the row ranges the builder is specified to
  emit for a list of chunk counts: the cursor starts where the caller says, a count of
  zero emits nothing, a count \<open>m > 0\<close> emits \<open>(cursor, cursor + m)\<close> and moves the
  cursor by \<open>m\<close>. These two follow the wording of the specification and are what the
  loop above is compared with.
\<close>

definition chunk_count :: "tokenizer \<Rightarrow> string \<Rightarrow> nat" where
  "chunk_count tk body = (case chunk_by_tokens tk body 256 32 of Inl e \<Rightarrow> 0 | Inr cs \<Rightarrow> length cs)"

fun spec_ranges :: "int \<Rightarrow> nat list \<Rightarrow> (int \<times> int) list" where
  "spec_ranges cursor [] = []"
| "spec_ranges cursor (m # ms) =
     (if m = 0 then spec_ranges cursor ms
      else (cursor, cursor + int m) # spec_ranges (cursor + int m) ms)"

text \<open>
  A list of ranges is a chain from \<open>a\<close> to \<open>b\<close> when the first starts at \<open>a\<close>, each is
  non-empty and starts where the one before ends, and the last ends at \<open>b\<close>.
\<close>

fun chain :: "int \<Rightarrow> int \<Rightarrow> (int \<times> int) list \<Rightarrow> bool" where
  "chain a b [] = (a = b)"
| "chain a b ((s, e) # rest) = (s = a \<and> s < e \<and> chain e b rest)"

definition row_range :: "works_rec \<Rightarrow> int \<times> int" where
  "row_range r = (start_row r, end_row r)"

text \<open>
  The work ids a range index accounts for: for every entry, in order, its work id once
  for each row of its range.
\<close>

definition index_work_ids :: "works_rec list \<Rightarrow> int list" where
  "index_work_ids idx =
     concat (map (\<lambda>e. replicate (nat (end_row e - start_row e)) (work_id e)) idx)"

text \<open>
  A numpy array as the writer sees it: its \<open>shape\<close> tuple and, for a matrix, its rows.
\<close>

record 'a ndarray =
  shape :: "nat list"
  cells :: "'a list list"

text \<open>
  The HDF5 file \<open>write_hdf5\<close> produces: the attributes of \<open>/meta\<close>, the three datasets
  of \<open>/chunks\<close> and the table \<open>/works/index\<close>. The file system maps a path to the file
  stored there. Work ids and row numbers are list positions and counts; they are taken
  to lie in the \<open>int32\<close> and \<open>int64\<close> ranges of the file format, so the conversions
  \<open>np.int32(...)\<close> and \<open>np.int64(...)\<close> are identities.
\<close>

record 'a h5file =
  h5_meta :: "(string \<times> string) list"
  h5_text :: "string list"
  h5_work_id :: "int list"
  h5_embedding :: "'a list list"
  h5_index :: "works_rec list"

type_synonym 'a fs = "string \<Rightarrow> 'a h5file option"

text \<open>
  \<open>write_hdf5\<close>: \<open>embeddings.shape[0]\<close> needs a first dimension; the \<open>assert\<close> compares
  the three lengths; \<open>N, D = embeddings.shape\<close> needs exactly two dimensions; then the
  file is written. There is no other check.
\<close>

definition write_hdf5 ::
  "'a fs \<Rightarrow> string \<Rightarrow> string list \<Rightarrow> int list \<Rightarrow> 'a ndarray \<Rightarrow> works_rec list
     \<Rightarrow> (string \<times> string) list \<Rightarrow> py_error + 'a fs" where
  "write_hdf5 files h5_path chunks work_ids embeddings index meta =
     (case shape embeddings of
        [] \<Rightarrow> Inl IndexError
      | n0 # _ \<Rightarrow>
          if \<not> (length chunks = n0 \<and> n0 = length work_ids) then Inl AssertionError
          else
            (case shape embeddings of
               [N, D] \<Rightarrow>
                 Inr (files(h5_path \<mapsto>
                   \<lparr> h5_meta = meta, h5_text = chunks, h5_work_id = work_ids,
                     h5_embedding = cells embeddings, h5_index = index \<rparr>))
             | _ \<Rightarrow> Inl ValueError))"

text \<open>
  The chunking step of \<open>main\<close> in build\_shakespeare\_hdf5.py (lines 293 to 298): chunk
  the cleaned text, and raise \<open>RuntimeError\<close> when no chunk was produced.
\<close>

definition main_chunking ::
  "tokenizer \<Rightarrow> string \<Rightarrow> int \<Rightarrow> int \<Rightarrow> py_error + (string \<times> int \<times> int) list" where
  "main_chunking tk cleaned max_tokens stride =
     (case chunk_text_by_tokens tk cleaned max_tokens stride of
        Inl e \<Rightarrow> Inl e
      | Inr chunks \<Rightarrow> if length chunks = 0 then Inl RuntimeError else Inr chunks)"

subsection \<open>\<open>build_if_missing\<close>\<close>

text \<open>
  The collaborators of the builder: the download (which may fail), the splitting of
  the text into works, the tokenizer, the embedder and the clock.
\<close>

record 'a build_env =
  download_shakespeare_text :: "py_error + string"
  split_works :: "string \<Rightarrow> (string \<times> string) list"
  env_tokenizer :: tokenizer
  embed_texts :: "string list \<Rightarrow> 'a ndarray"
  utcnow :: string

fun str_nat :: "nat \<Rightarrow> string" where
  "str_nat n =
     (if n < 10 then [char_of (48 + n)]
      else str_nat (n div 10) @ [char_of (48 + n mod 10)])"

definition str_int :: "int \<Rightarrow> string" where
  "str_int i = (if i < 0 then CHR ''-'' # str_nat (nat (- i)) else str_nat (nat i))"

definition build_meta :: "'a build_env \<Rightarrow> nat \<Rightarrow> (string \<times> string) list" where
  "build_meta env D =
     [(''created_at'', utcnow env @ ''Z''),
      (''source'', ''https://www.gutenberg.org/files/100/100-0.txt,'' @
                  ''https://www.gutenberg.org/cache/epub/100/pg100.txt,'' @
                  ''https://www.gutenberg.org/cache/epub/100/pg100.txt.utf8''),
      (''tokenizer'', ''bert-base-uncased''),
      (''embedder'', ''sentence-transformers/all-MiniLM-L6-v2''),
      (''embed_dim'', str_nat D),
      (''chunking'', ''max_tokens=256,overlap=32 (BERT tokenizer)''),
      (''note'', ''Embeddings are unit-normalized; cosine ~ dot product'')]"

definition build_if_missing :: "'a build_env \<Rightarrow> 'a fs \<Rightarrow> string \<Rightarrow> bool \<Rightarrow> py_error + 'a fs" where
  "build_if_missing env files out_path rebuild =
     (if files out_path \<noteq> None \<and> \<not> rebuild then Inr files
      else
        (case download_shakespeare_text env of
           Inl e \<Rightarrow> Inl e
         | Inr text \<Rightarrow>
             (case chunk_works (env_tokenizer env) (split_works env text) of
                Inl e \<Rightarrow> Inl e
              | Inr st \<Rightarrow>
                  let embeddings = embed_texts env (all_chunks st)
                  in (case shape embeddings of
                        _ # D # _ \<Rightarrow>
                          write_hdf5 files out_path (all_chunks st) (all_work_ids st)
                            embeddings (works_index st) (build_meta env D)
                      | _ \<Rightarrow> Inl IndexError))))"

section \<open>Query (shakespeare\_hdf5\_vectors.py)\<close>

text \<open>
  Scores are 32-bit floats in the source. The model takes them from any linearly
  ordered ring: what is stated below is about the order of scores and the selection of
  rows, not about rounding, and \<open>NaN\<close> is outside the model.
\<close>

definition dot :: "'a::linordered_idom list \<Rightarrow> 'a list \<Rightarrow> 'a" where
  "dot u v = sum_list (map2 (*) u v)"

text \<open>
  \<open>embs[sl, :]\<close> reads the listed rows of the dataset and fails on a row outside it;
  \<open>M @ qv\<close> fails when a row of \<open>M\<close> and \<open>qv\<close> differ in length.
\<close>

definition read_rows :: "'a list list \<Rightarrow> int list \<Rightarrow> py_error + 'a list list" where
  "read_rows embs sl =
     (if \<exists>r\<in>set sl. r < 0 \<or> int (length embs) \<le> r then Inl IndexError
      else Inr (map (\<lambda>r. embs ! nat r) sl))"

definition matvec :: "'a::linordered_idom list list \<Rightarrow> 'a list \<Rightarrow> py_error + 'a list" where
  "matvec M qv =
     (if \<exists>row\<in>set M. length row \<noteq> length qv then Inl ValueError
      else Inr (map (\<lambda>row. dot row qv) M))"

text \<open>\<open>scores[a:b] = v\<close> for a slice inside the array and a \<open>v\<close> of the slice's length.\<close>

definition assign_slice :: "'a list \<Rightarrow> int \<Rightarrow> int \<Rightarrow> 'a list \<Rightarrow> 'a list" where
  "assign_slice xs a b v = take (nat a) xs @ v @ drop (nat b) xs"

definition block :: int where
  "block = 131072"

text \<open>
  The loop \<open>for i in range(0, rows.shape[0], block)\<close>. The array \<open>scores\<close> comes from
  \<open>np.empty\<close>; the loop assigns every cell, so its initial content (zeros here) never
  reaches the result.
\<close>

fun score_blocks ::
  "'a::linordered_idom list list \<Rightarrow> 'a list \<Rightarrow> int list \<Rightarrow> int \<Rightarrow> int list \<Rightarrow> 'a list
     \<Rightarrow> py_error + 'a list" where
  "score_blocks embs qv rows blk [] scores = Inr scores"
| "score_blocks embs qv rows blk (i # rest) scores =
     (let sl = py_slice rows i (i + blk)
      in case read_rows embs sl of
           Inl e \<Rightarrow> Inl e
         | Inr M \<Rightarrow>
             (case matvec M qv of
                Inl e \<Rightarrow> Inl e
              | Inr v \<Rightarrow>
                  score_blocks embs qv rows blk rest
                    (assign_slice scores i (i + int (length sl)) v)))"

definition blocked_scores ::
  "'a::linordered_idom list list \<Rightarrow> 'a list \<Rightarrow> int list \<Rightarrow> int \<Rightarrow> py_error + 'a list" where
  "blocked_scores embs qv rows blk =
     (case py_range 0 (int (length rows)) blk of
        Inl e \<Rightarrow> Inl e
      | Inr starts \<Rightarrow> score_blocks embs qv rows blk starts (replicate (length rows) 0))"

subsection \<open>The library's selection and sorting routines\<close>

text \<open>
  \<open>np.argpartition(a, kth)\<close> returns a permutation of the positions of \<open>a\<close> that puts
  at position \<open>kth\<close> the position of an element that would be there in sorted order,
  positions of smaller or equal elements before it and positions of greater or equal
  elements after it. \<open>np.argsort(a)\<close> returns a permutation of the positions along which
  \<open>a\<close> is sorted. Neither fixes the order among equal elements (the default sort kind is
  not stable). The routines are parameters of the query; these predicates are what is
  known about them.
\<close>

definition argpartition_post :: "'a::linorder list \<Rightarrow> nat \<Rightarrow> nat list \<Rightarrow> bool" where
  "argpartition_post a kth p =
     (sort p = [0..<length a] \<and>
      (\<forall>i<length a. (i < kth \<longrightarrow> a ! (p ! i) \<le> a ! (p ! kth)) \<and>
                     (kth < i \<longrightarrow> a ! (p ! kth) \<le> a ! (p ! i))))"

definition argsort_post :: "'a::linorder list \<Rightarrow> nat list \<Rightarrow> bool" where
  "argsort_post a p = (sort p = [0..<length a] \<and> sorted (map ((!) a) p))"

definition selects :: "('a::linorder list \<Rightarrow> nat \<Rightarrow> nat list) \<Rightarrow> bool" where
  "selects sel = (\<forall>a kth. kth < length a \<longrightarrow> argpartition_post a kth (sel a kth))"

definition sorts :: "('a::linorder list \<Rightarrow> nat list) \<Rightarrow> bool" where
  "sorts srt = (\<forall>a. argsort_post a (srt a))"

text \<open>
  The call \<open>np.argpartition(a, kth)\<close>: a negative \<open>kth\<close> counts from the end; on a
  non-empty array a \<open>kth\<close> outside it raises \<open>ValueError\<close>; on an empty array the check
  is skipped and the result is empty.
\<close>

definition np_argpartition ::
  "('a list \<Rightarrow> nat \<Rightarrow> nat list) \<Rightarrow> 'a list \<Rightarrow> int \<Rightarrow> py_error + nat list" where
  "np_argpartition sel a kth =
     (let n = int (length a); kth' = (if kth < 0 then kth + n else kth)
      in if n = 0 then Inr []
         else if kth' < 0 \<or> n \<le> kth' then Inl ValueError
         else Inr (sel a (nat kth')))"

text \<open>
  Two concrete routines, used where a statement is run on an input. \<open>small_argselect\<close>
  is selection by repeated minimum: for every position up to \<open>kth\<close> it finds the first
  least remaining element with a strict comparison and swaps it into place; this is the
  way the library's own selection proceeds for a small \<open>kth\<close>. \<open>insertion_argsort\<close> is
  the stable insertion sort of the positions, which is what the library's default sort
  does on a short array.
\<close>

fun argmin_scan :: "'a::linorder list \<Rightarrow> nat list \<Rightarrow> nat list \<Rightarrow> nat \<Rightarrow> nat" where
  "argmin_scan v t [] minidx = minidx"
| "argmin_scan v t (k # ks) minidx =
     argmin_scan v t ks (if v ! (t ! k) < v ! (t ! minidx) then k else minidx)"

definition swap :: "'b list \<Rightarrow> nat \<Rightarrow> nat \<Rightarrow> 'b list" where
  "swap t i j = t[i := t ! j, j := t ! i]"

fun dumb_select :: "'a::linorder list \<Rightarrow> nat list \<Rightarrow> nat list \<Rightarrow> nat list" where
  "dumb_select v t [] = t"
| "dumb_select v t (i # js) =
     dumb_select v (swap t i (argmin_scan v t [Suc i..<length t] i)) js"

definition small_argselect :: "'a::linorder list \<Rightarrow> nat \<Rightarrow> nat list" where
  "small_argselect v kth = dumb_select v [0..<length v] [0..<Suc kth]"

definition insertion_argsort :: "'a::linorder list \<Rightarrow> nat list" where
  "insertion_argsort v = sort_key (\<lambda>i. v ! i) [0..<length v]"

subsection \<open>\<open>find_work_rows\<close> and \<open>query_hdf5\<close>\<close>

text \<open>\<open>str.lower()\<close> on the ASCII letters, and the substring test \<open>q in s\<close>.\<close>

definition lower_char :: "char \<Rightarrow> char" where
  "lower_char c =
     (let k = (of_char c :: nat) in if 65 \<le> k \<and> k \<le> 90 then char_of (k + 32) else c)"

definition py_lower :: "string \<Rightarrow> string" where
  "py_lower s = map lower_char s"

definition is_substring :: "string \<Rightarrow> string \<Rightarrow> bool" where
  "is_substring q s = (\<exists>i\<in>set [0..<Suc (length s)]. take (length q) (drop i s) = q)"

fun find_work_rows :: "works_rec list \<Rightarrow> string \<Rightarrow> (int \<times> int) option" where
  "find_work_rows [] title_substring = None"
| "find_work_rows (r # rest) title_substring =
     (if is_substring (py_lower title_substring) (py_lower (title r))
      then Some (start_row r, end_row r)
      else find_work_rows rest title_substring)"

text \<open>\<open>np.arange(lo, hi)\<close> and \<open>np.arange(n)\<close>.\<close>

definition arange :: "int \<Rightarrow> int \<Rightarrow> int list" where
  "arange lo hi = map (\<lambda>i. lo + int i) [0..<nat (hi - lo)]"

text \<open>
  The candidate rows: with a non-empty \<open>work_filter\<close> the range of the first work whose
  title contains it (\<open>ValueError\<close> when there is none), otherwise every row.
\<close>

definition candidate_rows :: "'a h5file \<Rightarrow> string option \<Rightarrow> py_error + int list" where
  "candidate_rows h5 work_filter =
     (if work_filter \<noteq> None \<and> work_filter \<noteq> Some []
      then (case find_work_rows (h5_index h5) (the work_filter) of
              None \<Rightarrow> Inl ValueError
            | Some (lo, hi) \<Rightarrow> Inr (arange lo hi))
      else Inr (arange 0 (int (length (h5_embedding h5)))))"

text \<open>
  The top-k step: \<open>k = min(top_k, n)\<close>, \<open>idx = np.argpartition(-scores, k - 1)[:k]\<close>,
  \<open>idx = idx[np.argsort(-scores[idx])]\<close>.
\<close>

text \<open>Indexing an array by an array of positions: a position outside the array raises.\<close>

definition np_take :: "'b list \<Rightarrow> nat list \<Rightarrow> py_error + 'b list" where
  "np_take xs js =
     (if \<exists>j\<in>set js. length xs \<le> j then Inl IndexError else Inr (map ((!) xs) js))"

definition top_k_idx ::
  "('a::linordered_idom list \<Rightarrow> nat \<Rightarrow> nat list) \<Rightarrow> ('a list \<Rightarrow> nat list) \<Rightarrow> 'a list \<Rightarrow> int
     \<Rightarrow> py_error + nat list" where
  "top_k_idx sel srt scores top_k =
     (let k = min top_k (int (length scores));
          neg = map uminus scores
      in case np_argpartition sel neg (k - 1) of
           Inl e \<Rightarrow> Inl e
         | Inr p \<Rightarrow>
             let idx = py_slice p 0 k
             in (case np_take neg idx of
                   Inl e \<Rightarrow> Inl e
                 | Inr vals \<Rightarrow> np_take idx (srt vals)))"

record 'a hit =
  hit_rank :: int
  hit_score :: 'a
  hit_row :: int
  hit_work_id :: int
  hit_title :: string
  hit_text :: string

text \<open>
  The title of a work id: the first entry of the index with that id, or the default
  \<open>work_id=<id>\<close>.
\<close>

fun title_of :: "works_rec list \<Rightarrow> int \<Rightarrow> string" where
  "title_of [] wid = ''work_id='' @ str_int wid"
| "title_of (r # rest) wid = (if work_id r = wid then title r else title_of rest wid)"

text \<open>
  The result loop \<open>for rank, i_local in enumerate(idx, start=1)\<close>; reading
  \<open>work_ids[row]\<close> or \<open>texts[row]\<close> outside the dataset raises.
\<close>

fun collect_hits ::
  "'a h5file \<Rightarrow> int list \<Rightarrow> 'a list \<Rightarrow> int \<Rightarrow> nat list \<Rightarrow> py_error + 'a hit list" where
  "collect_hits h5 rows scores rk [] = Inr []"
| "collect_hits h5 rows scores rk (i_local # rest) =
     (if length rows \<le> i_local \<or> length scores \<le> i_local then Inl IndexError
      else
        let r = rows ! i_local
        in if r < 0 \<or> int (length (h5_work_id h5)) \<le> r \<or> int (length (h5_text h5)) \<le> r
           then Inl IndexError
           else
           let wid = h5_work_id h5 ! nat r;
               h = \<lparr> hit_rank = rk, hit_score = scores ! i_local, hit_row = r,
                     hit_work_id = wid, hit_title = title_of (h5_index h5) wid,
                     hit_text = h5_text h5 ! nat r \<rparr>
           in case collect_hits h5 rows scores (rk + 1) rest of
                Inl e \<Rightarrow> Inl e
              | Inr hs \<Rightarrow> Inr (h # hs))"

text \<open>
  \<open>query_hdf5\<close>. The embedder is a parameter: \<open>embed_query\<close> gives the normalised
  vector of the query text for the model name.
\<close>

definition query_hdf5 ::
  "('a::linordered_idom list \<Rightarrow> nat \<Rightarrow> nat list) \<Rightarrow> ('a list \<Rightarrow> nat list)
     \<Rightarrow> (string \<Rightarrow> string \<Rightarrow> 'a list) \<Rightarrow> 'a fs
     \<Rightarrow> string \<Rightarrow> string \<Rightarrow> int \<Rightarrow> string option \<Rightarrow> string \<Rightarrow> py_error + 'a hit list" where
  "query_hdf5 sel srt embed_query files h5_path query_text top_k work_filter model_name =
     (case files h5_path of
        None \<Rightarrow> Inl FileNotFoundError
      | Some h5 \<Rightarrow>
          let qv = embed_query model_name query_text
          in (case candidate_rows h5 work_filter of
                Inl e \<Rightarrow> Inl e
              | Inr rows \<Rightarrow>
                  (case blocked_scores (h5_embedding h5) qv rows block of
                     Inl e \<Rightarrow> Inl e
                   | Inr scores \<Rightarrow>
                       (case top_k_idx sel srt scores top_k of
                          Inl e \<Rightarrow> Inl e
                        | Inr idx \<Rightarrow> collect_hits h5 rows scores 1 idx))))"

text \<open>
  The reference the specification compares the query with: score every candidate at
  once, sort all candidates by descending score (a stable sort, so that of two equal
  scores the lower position comes first, as the specification asks), keep the first
  \<open>k\<close>. It follows the wording of the specification, not the source.
\<close>

definition all_scores :: "'a::linordered_idom list list \<Rightarrow> 'a list \<Rightarrow> int list \<Rightarrow> 'a list" where
  "all_scores embs qv rows = map (\<lambda>r. dot (embs ! nat r) qv) rows"

definition brute_force_topk ::
  "'a::linordered_idom list list \<Rightarrow> 'a list \<Rightarrow> int list \<Rightarrow> nat \<Rightarrow> (int \<times> 'a) list" where
  "brute_force_topk embs qv rows k =
     (let scores = all_scores embs qv rows
      in map (\<lambda>i. (rows ! i, scores ! i))
           (take k (sort_key (\<lambda>i. - (scores ! i)) [0..<length rows])))"

definition ties_lower_row_first :: "'a hit list \<Rightarrow> bool" where
  "ties_lower_row_first hs =
     (\<forall>j<length hs. \<forall>i<j. hit_score (hs ! i) = hit_score (hs ! j) \<longrightarrow> hit_row (hs ! i) < hit_row (hs ! j))"


section \<open>Properties of the chunkers\<close>

subsection \<open>Ranges and slices\<close>

lemma range_len_pos:
  assumes "0 < step" "0 < n"
  shows "range_len 0 n step = nat ((n - 1) div step + 1)"
  using assms by (simp add: range_len_def)

lemma py_range_pos:
  assumes "0 < step"
  shows "py_range 0 n step = Inr (map (\<lambda>i. int i * step) [0..<range_len 0 n step])"
  using assms by (simp add: py_range_def)

lemma range_len_last:
  assumes "0 < step" "0 < n"
  shows "0 < range_len 0 n step"
    and "int (range_len 0 n step - 1) * step < n"
    and "n \<le> int (range_len 0 n step) * step"
proof -
  let ?q = "(n - 1) div step"
  have q0: "0 \<le> ?q" using assms by (simp add: pos_imp_zdiv_nonneg_iff)
  have m: "range_len 0 n step = nat (?q + 1)" using assms by (rule range_len_pos)
  show "0 < range_len 0 n step" using q0 m by simp
  have "int (range_len 0 n step - 1) = ?q" using q0 m by simp
  moreover have "?q * step \<le> n - 1"
  proof -
    have "?q * step + (n - 1) mod step = n - 1" by simp
    moreover have "0 \<le> (n - 1) mod step" using assms(1) by simp
    ultimately show ?thesis by linarith
  qed
  ultimately show "int (range_len 0 n step - 1) * step < n" by simp
  have "n - 1 < (?q + 1) * step"
  proof -
    have "?q * step + (n - 1) mod step = n - 1" by simp
    moreover have "(n - 1) mod step < step" using assms(1) by simp
    moreover have "(?q + 1) * step = ?q * step + step" by (simp add: algebra_simps)
    ultimately show ?thesis by linarith
  qed
  moreover have "int (range_len 0 n step) = ?q + 1" using q0 m by simp
  ultimately show "n \<le> int (range_len 0 n step) * step" by simp
qed



lemma chunk_text_loop_stop:
  "int (length ids) \<le> s + mx \<Longrightarrow>
   chunk_text_loop tk ids mx (s # rest) acc
     = acc @ [(tk_decode tk (py_slice ids s (min (s + mx) (int (length ids)))), s, min (s + mx) (int (length ids)))]"
  by (simp add: Let_def)

lemma chunk_text_loop_go:
  "\<not> int (length ids) \<le> s + mx \<Longrightarrow>
   chunk_text_loop tk ids mx (s # rest) acc
     = chunk_text_loop tk ids mx rest
         (acc @ [(tk_decode tk (py_slice ids s (min (s + mx) (int (length ids)))), s, min (s + mx) (int (length ids)))])"
  by (simp add: Let_def)


lemma text_chunk_eq:
  "text_chunk tk ids mx step i
     = (tk_decode tk (py_slice ids (int i * step) (min (int i * step + mx) (int (length ids)))),
        int i * step, min (int i * step + mx) (int (length ids)))"
  by (simp add: text_chunk_def window_at_def)

lemma chunk_text_loop_upt:
  assumes "k \<le> j" "j < m" "int (length ids) \<le> int j * step + mx"
  shows "\<exists>c. k \<le> c \<and> c \<le> j \<and> int (length ids) \<le> int c * step + mx
           \<and> (\<forall>i. k \<le> i \<and> i < c \<longrightarrow> int i * step + mx < int (length ids))
           \<and> chunk_text_loop tk ids mx (map (\<lambda>i. int i * step) [k..<m]) acc
               = acc @ map (text_chunk tk ids mx step) [k..<Suc c]"
  using assms
proof (induction "j - k" arbitrary: k acc)
  case 0
  then have kj: "k = j" by simp
  have up: "map (\<lambda>i. int i * step) [k..<m] = (int k * step) # map (\<lambda>i. int i * step) [Suc k..<m]"
    using 0 by (simp add: upt_conv_Cons)
  have stop: "int (length ids) \<le> int k * step + mx" using 0(4) kj by simp
  have "chunk_text_loop tk ids mx (map (\<lambda>i. int i * step) [k..<m]) acc
               = acc @ map (text_chunk tk ids mx step) [k..<Suc k]"
    unfolding up chunk_text_loop_stop[OF stop] by (simp add: text_chunk_eq)
  then show ?case using stop kj by (intro exI[of _ k]) simp
next
  case (Suc d)
  then have km: "k < m" by simp
  have up: "map (\<lambda>i. int i * step) [k..<m] = (int k * step) # map (\<lambda>i. int i * step) [Suc k..<m]"
    using km by (simp add: upt_conv_Cons)
  show ?case
  proof (cases "int (length ids) \<le> int k * step + mx")
    case True
    have "chunk_text_loop tk ids mx (map (\<lambda>i. int i * step) [k..<m]) acc
               = acc @ map (text_chunk tk ids mx step) [k..<Suc k]"
      unfolding up chunk_text_loop_stop[OF True] by (simp add: text_chunk_eq)
    then show ?thesis using True Suc.prems(1) by (intro exI[of _ k]) simp
  next
    case False
    have d: "d = j - Suc k" "Suc k \<le> j" using Suc.hyps(2) by simp_all
    from Suc.hyps(1)[OF d(1) d(2) Suc.prems(2) Suc.prems(3), of "acc @ [text_chunk tk ids mx step k]"]
    obtain c where c: "Suc k \<le> c" "c \<le> j" "int (length ids) \<le> int c * step + mx"
      "\<forall>i. Suc k \<le> i \<and> i < c \<longrightarrow> int i * step + mx < int (length ids)"
      "chunk_text_loop tk ids mx (map (\<lambda>i. int i * step) [Suc k..<m]) (acc @ [text_chunk tk ids mx step k])
         = (acc @ [text_chunk tk ids mx step k]) @ map (text_chunk tk ids mx step) [Suc k..<Suc c]"
      by blast
    have step1: "chunk_text_loop tk ids mx (map (\<lambda>i. int i * step) [k..<m]) acc
        = chunk_text_loop tk ids mx (map (\<lambda>i. int i * step) [Suc k..<m]) (acc @ [text_chunk tk ids mx step k])"
      unfolding up chunk_text_loop_go[OF False] by (simp add: text_chunk_eq)
    have "[k..<Suc c] = k # [Suc k..<Suc c]" using c(1) by (simp add: upt_conv_Cons)
    then have res: "chunk_text_loop tk ids mx (map (\<lambda>i. int i * step) [k..<m]) acc
        = acc @ map (text_chunk tk ids mx step) [k..<Suc c]"
      using step1 c(5) by simp
    have all: "\<forall>i. k \<le> i \<and> i < c \<longrightarrow> int i * step + mx < int (length ids)"
    proof (intro allI impI)
      fix i assume i: "k \<le> i \<and> i < c"
      show "int i * step + mx < int (length ids)"
      proof (cases "i = k")
        case True then show ?thesis using False by simp
      next
        case False then show ?thesis using i c(4) by simp
      qed
    qed
    have kc: "k \<le> c" using c(1) by simp
    show ?thesis using kc c(2) c(3) all res by blast
  qed
qed


lemma chunk_text_by_tokens_windows:
  assumes "0 < mx" "0 \<le> st" "st < mx" "tk_encode tk text \<noteq> []"
  shows "\<exists>c. chunk_text_by_tokens tk text mx st
               = Inr (map (text_chunk tk (tk_encode tk text) mx (mx - st)) [0..<Suc c])
          \<and> int (length (tk_encode tk text)) \<le> int c * (mx - st) + mx
          \<and> (\<forall>i<c. int i * (mx - st) + mx < int (length (tk_encode tk text)))"
proof -
  define ids where "ids = tk_encode tk text"
  define n where "n = int (length ids)"
  define step where "step = mx - st"
  define m where "m = range_len 0 n step"
  have sp: "0 < step" using assms by (simp add: step_def)
  have np: "0 < n" using assms by (simp add: n_def ids_def)
  have rl1: "0 < m" and rl3: "n \<le> int m * step"
    using range_len_last[OF sp np] by (simp_all add: m_def)
  have last: "int (length ids) \<le> int (m - 1) * step + mx"
  proof -
    obtain m' where m': "m = Suc m'" using rl1 by (cases m) simp_all
    have "int m * step = int m' * step + step" unfolding m' by (simp add: algebra_simps)
    moreover have "step \<le> mx" using assms(2) by (simp add: step_def)
    ultimately have "n \<le> int m' * step + mx" using rl3 by linarith
    then show ?thesis unfolding m' n_def by simp
  qed
  have lt: "m - 1 < m" using rl1 by simp
  have z: "0 \<le> m - 1" by simp
  from chunk_text_loop_upt[OF z lt last, of tk "[]"]
  obtain c where c1: "int (length ids) \<le> int c * step + mx"
      and c2: "\<forall>i. 0 \<le> i \<and> i < c \<longrightarrow> int i * step + mx < int (length ids)"
      and c3: "chunk_text_loop tk ids mx (map (\<lambda>i. int i * step) [0..<m]) []
         = [] @ map (text_chunk tk ids mx step) [0..<Suc c]"
    by (elim exE conjE)
  have pr: "py_range 0 n step = Inr (map (\<lambda>i. int i * step) [0..<m])"
    unfolding m_def by (rule py_range_pos[OF sp])
  have a: "0 < mx \<and> 0 \<le> st \<and> st < mx" using assms by simp
  have n0: "int (length (tk_encode tk text)) \<noteq> 0" using assms(4) by simp
  have "chunk_text_by_tokens tk text mx st
               = (case py_range 0 n step of Inl e \<Rightarrow> Inl e
                   | Inr starts \<Rightarrow> Inr (chunk_text_loop tk ids mx starts []))"
    unfolding chunk_text_by_tokens_def Let_def n_def ids_def step_def
    using a n0 by (simp only: if_False simp_thms)
  then have "chunk_text_by_tokens tk text mx st
               = Inr (map (text_chunk tk ids mx step) [0..<Suc c])"
    unfolding pr using c3 by (simp only: sum.case append_Nil)
  moreover have "\<forall>i<c. int i * step + mx < int (length ids)" using c2 by simp
  ultimately show ?thesis using c1 unfolding ids_def step_def by blast
qed

lemma chunk_text_by_tokens_empty:
  assumes "0 < mx" "0 \<le> st" "st < mx" "tk_encode tk text = []"
  shows "chunk_text_by_tokens tk text mx st = Inr []"
  using assms by (simp add: chunk_text_by_tokens_def)


lemma py_slice_nonneg:
  assumes "0 \<le> a" "0 \<le> b"
  shows "py_slice xs a (a + b) = take (nat b) (drop (nat a) xs)"
proof -
  have ca: "clip_index (length xs) a = min (nat a) (length xs)"
    using assms by (simp add: clip_index_def)
  have cb: "clip_index (length xs) (a + b) = min (nat a + nat b) (length xs)"
    using assms by (simp add: clip_index_def nat_add_distrib)
  show ?thesis
  proof (cases "nat a \<le> length xs")
    case True
    then show ?thesis unfolding py_slice_def Let_def ca cb
      by (simp add: min_def)
  next
    case False
    then show ?thesis unfolding py_slice_def Let_def ca cb by simp
  qed
qed

lemma chunk_by_loop_filter:
  assumes "\<forall>s\<in>set starts. py_slice ids s (s + mx) \<noteq> []"
  shows "chunk_by_loop tk ids mx starts acc
           = acc @ filter (\<lambda>t. t \<noteq> [])
                     (map (\<lambda>s. py_strip (tk_decode tk (py_slice ids s (s + mx)))) starts)"
  using assms by (induction starts arbitrary: acc) (simp_all add: Let_def)

lemma chunk_by_tokens_eq:
  assumes "0 < mx"
  shows "chunk_by_tokens tk text mx ov
           = Inr (filter (\<lambda>t. t \<noteq> []) (window_texts tk text mx ov))"
proof (cases "tk_encode tk text = []")
  case True
  then show ?thesis by (simp add: chunk_by_tokens_def window_texts_def range_len_def)
next
  case False
  define ids where "ids = tk_encode tk text"
  define n where "n = int (length ids)"
  define step where "step = (if ov < mx then mx - ov else mx)"
  define m where "m = range_len 0 n step"
  have sp: "0 < step" using assms by (simp add: step_def)
  have np: "0 < n" using False by (simp add: n_def ids_def)
  have pr: "py_range 0 n step = Inr (map (\<lambda>i. int i * step) [0..<m])"
    unfolding m_def by (rule py_range_pos[OF sp])
  have ne: "\<forall>s\<in>set (map (\<lambda>i. int i * step) [0..<m]). py_slice ids s (s + mx) \<noteq> []"
  proof
    fix s assume "s \<in> set (map (\<lambda>i. int i * step) [0..<m])"
    then obtain i where i: "i < m" "s = int i * step" by auto
    have "int i \<le> int (m - 1)" using i(1) by simp
    then have "int i * step \<le> int (m - 1) * step" using sp by (simp add: mult_right_mono)
    moreover have "int (m - 1) * step < n"
      using range_len_last(2)[OF sp np] by (simp add: m_def)
    ultimately have sn: "s < n" using i(2) by simp
    have s0: "0 \<le> s" using i(2) sp by simp
    have "nat s < length ids" using sn s0 by (simp add: n_def)
    moreover have mx0: "0 \<le> mx" using assms by simp
    ultimately show "py_slice ids s (s + mx) \<noteq> []"
      using assms by (simp add: py_slice_nonneg[OF s0 mx0])
  qed
  have "chunk_by_tokens tk text mx ov
          = (case py_range 0 n step of Inl e \<Rightarrow> Inl e
              | Inr starts \<Rightarrow> Inr (chunk_by_loop tk ids mx starts []))"
    unfolding chunk_by_tokens_def Let_def n_def ids_def step_def
    using False by (simp only: if_False)
  then have "chunk_by_tokens tk text mx ov
          = Inr (chunk_by_loop tk ids mx (map (\<lambda>i. int i * step) [0..<m]) [])"
    unfolding pr by (simp only: sum.case)
  then have r: "chunk_by_tokens tk text mx ov
          = Inr (filter (\<lambda>t. t \<noteq> [])
                  (map (\<lambda>i. py_strip (tk_decode tk (py_slice ids (int i * step) (int i * step + mx))))
                     [0..<m]))"
    unfolding chunk_by_loop_filter[OF ne] by (simp add: comp_def)
  show ?thesis using r unfolding window_texts_def Let_def m_def n_def ids_def step_def .
qed

lemma concat_windows:
  "concat (map (\<lambda>i. take k (drop (i * k) xs)) [0..<m]) = take (m * k) xs"
proof (induction m)
  case 0
  then show ?case by simp
next
  case (Suc m)
  have "take (m * k + k) xs = take (m * k) xs @ take k (drop (m * k) xs)"
    by (rule take_add)
  moreover have "Suc m * k = m * k + k" by simp
  ultimately have "take (Suc m * k) xs = take (m * k) xs @ take k (drop (m * k) xs)"
    by (simp only:)
  moreover have "concat (map (\<lambda>i. take k (drop (i * k) xs)) [0..<Suc m])
       = concat (map (\<lambda>i. take k (drop (i * k) xs)) [0..<m]) @ take k (drop (m * k) xs)"
    by simp
  ultimately show ?case using Suc by (simp only:)
qed

subsection \<open>The worked example of the specification\<close>

lemma upt_2: "[0..<2] = [0, Suc 0]"
  by (simp add: numeral_2_eq_2)

text \<open>
  Claim C3. With 300 token ids, \<open>max_tokens = 256\<close> and an overlap of 64,
  \<open>chunk_text_by_tokens\<close> returns exactly two chunks, the windows \<open>[0, 256)\<close> and
  \<open>[192, 300)\<close> with the decoded text of each; and for any valid parameters a text
  without token ids gives the empty list.
\<close>

theorem chunk_text_300_256_64:
  "(length (tk_encode tk text) = 300 \<longrightarrow>
      chunk_text_by_tokens tk text 256 64
        = Inr [(tk_decode tk (py_slice (tk_encode tk text) 0 256), 0, 256),
               (tk_decode tk (py_slice (tk_encode tk text) 192 300), 192, 300)])
   \<and> (0 < mx \<and> 0 \<le> st \<and> st < mx \<and> tk_encode tk' text' = [] \<longrightarrow>
      chunk_text_by_tokens tk' text' mx st = Inr [])"
proof (intro conjI impI)
  assume n: "length (tk_encode tk text) = 300"
  have r: "py_range 0 300 192 = Inr [0, 192]"
    by (simp add: py_range_def range_len_def upt_2)
  have ne: "tk_encode tk text \<noteq> []" using n by auto
  show "chunk_text_by_tokens tk text 256 64
        = Inr [(tk_decode tk (py_slice (tk_encode tk text) 0 256), 0, 256),
               (tk_decode tk (py_slice (tk_encode tk text) 192 300), 192, 300)]"
    using n r ne by (simp add: chunk_text_by_tokens_def Let_def)
next
  assume "0 < mx \<and> 0 \<le> st \<and> st < mx \<and> tk_encode tk' text' = []"
  then show "chunk_text_by_tokens tk' text' mx st = Inr []"
    by (simp add: chunk_text_by_tokens_empty)
qed

text \<open>
  Claim C3, run on the character tokenizer and a text of 300 characters, and on the
  empty text.
\<close>

theorem chunk_text_300_256_64_witness:
  "length (tk_encode char_tokenizer (replicate 300 (CHR ''a''))) = 300
   \<and> map_sum id offsets (chunk_text_by_tokens char_tokenizer (replicate 300 (CHR ''a'')) 256 64)
       = Inr [(0, 256), (192, 300)]
   \<and> (0::int) < 256 \<and> (0::int) \<le> 64 \<and> (64::int) < 256 \<and> tk_encode char_tokenizer [] = []
   \<and> chunk_text_by_tokens char_tokenizer [] 256 64 = Inr []"
proof -
  have h: "length (tk_encode char_tokenizer (replicate 300 (CHR ''a''))) = 300"
    by (simp add: char_tokenizer_def)
  have e: "(0::int) < 256 \<and> (0::int) \<le> 64 \<and> (64::int) < 256 \<and> tk_encode char_tokenizer [] = []"
    by (simp add: char_tokenizer_def)
  note t = chunk_text_300_256_64[of char_tokenizer "replicate 300 (CHR ''a'')" 256 64 char_tokenizer "[]"]
  have a: "map_sum id offsets (chunk_text_by_tokens char_tokenizer (replicate 300 (CHR ''a'')) 256 64)
       = Inr [(0, 256), (192, 300)]"
    using t h by (simp add: offsets_def)
  have b: "chunk_text_by_tokens char_tokenizer [] 256 64 = Inr []"
    using t e by blast
  show ?thesis using h a e b by blast
qed

subsection \<open>Window boundaries and content\<close>

lemma offsets_chunk_text_loop:
  assumes "length ids = length ids'" "map snd acc = map snd acc'"
  shows "map snd (chunk_text_loop tk ids mx starts acc)
           = map snd (chunk_text_loop tk' ids' mx starts acc')"
  using assms
proof (induction starts arbitrary: acc acc')
  case Nil
  then show ?case by simp
next
  case (Cons s starts)
  show ?case
  proof (cases "int (length ids) \<le> s + mx")
    case True
    have "int (length ids') \<le> s + mx" using True Cons.prems(1) by simp
    then show ?thesis
      unfolding chunk_text_loop_stop[OF True] chunk_text_loop_stop[OF \<open>int (length ids') \<le> s + mx\<close>]
      using Cons.prems by simp
  next
    case False
    have F': "\<not> int (length ids') \<le> s + mx" using False Cons.prems(1) by simp
    show ?thesis
      unfolding chunk_text_loop_go[OF False] chunk_text_loop_go[OF F']
      by (rule Cons.IH) (use Cons.prems in simp_all)
  qed
qed

lemma chunk_text_offsets_length_only:
  assumes "length (tk_encode tk text) = length (tk_encode tk' text')"
  shows "map_sum id offsets (chunk_text_by_tokens tk text mx st)
           = map_sum id offsets (chunk_text_by_tokens tk' text' mx st)"
proof -
  have "map snd (chunk_text_loop tk (tk_encode tk text) mx starts [])
          = map snd (chunk_text_loop tk' (tk_encode tk' text') mx starts [])" for starts
    by (rule offsets_chunk_text_loop[OF assms]) simp
  note H = this
  have l: "int (length (tk_encode tk text)) = int (length (tk_encode tk' text'))"
    using assms by simp
  have e: "(tk_encode tk text = []) = (tk_encode tk' text' = [])"
    using assms by (metis length_0_conv)
  show ?thesis
    unfolding chunk_text_by_tokens_def Let_def l
    by (cases "py_range 0 (int (length (tk_encode tk' text'))) (mx - st)")
       (simp_all add: H e offsets_def)
qed


lemma char_tokenizer_length [simp]: "length (tk_encode char_tokenizer s) = length s"
  by (simp add: char_tokenizer_def)

lemma char_tokenizer_nil [simp]: "(tk_encode char_tokenizer s = []) = (s = [])"
  by (simp add: char_tokenizer_def)

lemma char_tokenizer_slice [simp]:
  "tk_decode char_tokenizer (py_slice (tk_encode char_tokenizer s) a b) = py_slice s a b"
  by (simp add: char_tokenizer_def py_slice_def Let_def take_map drop_map comp_def)

lemma char_tokenizer_take_drop [simp]:
  "tk_decode char_tokenizer (take k (drop j (tk_encode char_tokenizer s))) = take k (drop j s)"
  by (simp add: char_tokenizer_def take_map drop_map comp_def)

lemma py_strip_replicate_a: "py_strip (replicate k (CHR ''a'')) = replicate k (CHR ''a'')"
proof -
  have ns: "\<not> is_space (CHR ''a'')" by (simp add: is_space_def)
  show ?thesis using ns by (simp add: py_strip_def)
qed

text \<open>
  Claim C2, at \<open>chunk_by_tokens\<close>. On 256 token ids with the parameters the builder
  passes (\<open>max_tokens = 256\<close>, \<open>overlap = 32\<close>, so a step of 224) the first window
  \<open>[0, 256)\<close> already ends at \<open>n\<close>, and yet a second chunk is returned: the window
  \<open>[224, 256)\<close>, which starts inside the first. \<open>chunk_text_by_tokens\<close> stops after
  the first window on the same input.
\<close>

theorem chunk_by_tokens_dangling_window:
  "chunk_by_tokens char_tokenizer (replicate 256 (CHR ''a'')) 256 32
     = Inr [replicate 256 (CHR ''a''), replicate 32 (CHR ''a'')]
   \<and> map_sum id offsets (chunk_text_by_tokens char_tokenizer (replicate 256 (CHR ''a'')) 256 32)
     = Inr [(0, 256)]"
proof
  have r: "range_len 0 256 224 = 2" by (simp add: range_len_def)
  have w: "window_texts char_tokenizer (replicate 256 (CHR ''a'')) 256 32
             = [py_strip (py_slice (replicate 256 (CHR ''a'')) 0 256),
                py_strip (py_slice (replicate 256 (CHR ''a'')) 224 480)]"
    by (simp add: window_texts_def Let_def r upt_2)
  have s1: "py_slice (replicate 256 (CHR ''a'')) 0 256 = replicate 256 (CHR ''a'')"
    by (simp add: py_slice_def clip_index_def)
  have s2: "py_slice (replicate 256 (CHR ''a'')) 224 480 = replicate 32 (CHR ''a'')"
    by (simp add: py_slice_def clip_index_def)
  show "chunk_by_tokens char_tokenizer (replicate 256 (CHR ''a'')) 256 32
     = Inr [replicate 256 (CHR ''a''), replicate 32 (CHR ''a'')]"
    by (simp add: chunk_by_tokens_eq w s1 s2 py_strip_replicate_a)
  have p: "py_range 0 256 224 = Inr [0, 224]"
    by (simp add: py_range_def r upt_2)
  show "map_sum id offsets (chunk_text_by_tokens char_tokenizer (replicate 256 (CHR ''a'')) 256 32)
     = Inr [(0, 256)]"
    by (simp add: chunk_text_by_tokens_def p offsets_def Let_def)
qed

text \<open>
  Claim C4 fails for \<open>chunk_by_tokens\<close> as stated: two texts of two token ids each,
  chunked with the same parameters, give one chunk and no chunk, because the window
  of the second decodes to blanks and is dropped.
\<close>

theorem chunk_count_content_counterexample:
  "length (tk_encode char_tokenizer ''ab'') = length (tk_encode char_tokenizer ''  '')
   \<and> chunk_by_tokens char_tokenizer ''ab'' 256 32 = Inr [''ab'']
   \<and> chunk_by_tokens char_tokenizer ''  '' 256 32 = Inr []"
  by code_simp

text \<open>
  Claim C4, amended. For two texts with the same number of token ids and the same
  parameters, \<open>chunk_text_by_tokens\<close> returns the same offsets (or fails the same
  way); and \<open>chunk_by_tokens\<close> returns the same number of chunks whenever
  \<open>max_tokens\<close> is positive and no visited window of either text strips to the empty
  string.
\<close>

theorem chunk_boundaries_depend_on_length:
  assumes "length (tk_encode tk text) = length (tk_encode tk' text')"
  shows "map_sum id offsets (chunk_text_by_tokens tk text mx st)
           = map_sum id offsets (chunk_text_by_tokens tk' text' mx st)
       \<and> (0 < mx \<and> [] \<notin> set (window_texts tk text mx ov)
                 \<and> [] \<notin> set (window_texts tk' text' mx ov)
            \<longrightarrow> map_sum id length (chunk_by_tokens tk text mx ov)
                  = map_sum id length (chunk_by_tokens tk' text' mx ov))"
proof (intro conjI impI)
  show "map_sum id offsets (chunk_text_by_tokens tk text mx st)
           = map_sum id offsets (chunk_text_by_tokens tk' text' mx st)"
    by (rule chunk_text_offsets_length_only[OF assms])
next
  assume a: "0 < mx \<and> [] \<notin> set (window_texts tk text mx ov)
                 \<and> [] \<notin> set (window_texts tk' text' mx ov)"
  have f: "filter (\<lambda>t. t \<noteq> []) xs = xs" if "[] \<notin> set xs" for xs :: "string list"
    using that by (induction xs) auto
  have l: "length (window_texts tk text mx ov) = length (window_texts tk' text' mx ov)"
    using assms by (simp add: window_texts_def Let_def)
  show "map_sum id length (chunk_by_tokens tk text mx ov)
                  = map_sum id length (chunk_by_tokens tk' text' mx ov)"
    using a l by (simp add: chunk_by_tokens_eq f)
qed

text \<open>
  Claim C4, amended, run on two texts of five characters.
\<close>

theorem chunk_boundaries_depend_on_length_witness:
  "length (tk_encode char_tokenizer ''abcde'') = length (tk_encode char_tokenizer ''vwxyz'')
   \<and> map_sum id offsets (chunk_text_by_tokens char_tokenizer ''abcde'' 3 1)
       = map_sum id offsets (chunk_text_by_tokens char_tokenizer ''vwxyz'' 3 1)
   \<and> (0::int) < 3
   \<and> [] \<notin> set (window_texts char_tokenizer ''abcde'' 3 1)
   \<and> [] \<notin> set (window_texts char_tokenizer ''vwxyz'' 3 1)
   \<and> map_sum id length (chunk_by_tokens char_tokenizer ''abcde'' 3 1)
       = map_sum id length (chunk_by_tokens char_tokenizer ''vwxyz'' 3 1)"
proof -
  have h: "length (tk_encode char_tokenizer ''abcde'') = length (tk_encode char_tokenizer ''vwxyz'')"
    by code_simp
  have w: "(0::int) < 3 \<and> [] \<notin> set (window_texts char_tokenizer ''abcde'' 3 1)
             \<and> [] \<notin> set (window_texts char_tokenizer ''vwxyz'' 3 1)"
    by code_simp
  note t = chunk_boundaries_depend_on_length[OF h, of 3 1 1]
  show ?thesis using h w t by blast
qed

text \<open>
  Claim C10. With \<open>0 < max_tokens \<le> overlap\<close>, \<open>chunk_by_tokens\<close> returns (it is a
  total function and the result is not an error) the non-empty stripped texts of the
  consecutive windows of width \<open>max_tokens\<close>: window \<open>i\<close> is
  \<open>ids[i * max_tokens : (i + 1) * max_tokens]\<close>, the windows do not overlap, and put
  end to end they are the token ids.
\<close>

theorem chunk_by_tokens_overlap_fallback:
  assumes "0 < mx" "mx \<le> ov"
  shows "chunk_by_tokens tk text mx ov
           = Inr (filter (\<lambda>t. t \<noteq> [])
                   (map (\<lambda>i. py_strip (tk_decode tk (take (nat mx) (drop (i * nat mx) (tk_encode tk text)))))
                      [0..<range_len 0 (int (length (tk_encode tk text))) mx]))
       \<and> concat (map (\<lambda>i. take (nat mx) (drop (i * nat mx) (tk_encode tk text)))
                  [0..<range_len 0 (int (length (tk_encode tk text))) mx])
           = tk_encode tk text"
proof
  define ids where "ids = tk_encode tk text"
  define m where "m = range_len 0 (int (length ids)) mx"
  have mx0: "0 \<le> mx" using assms by simp
  have sl: "py_slice ids (int i * mx) (int i * mx + mx) = take (nat mx) (drop (i * nat mx) ids)" for i
  proof -
    have "0 \<le> int i * mx" using mx0 by simp
    then have "py_slice ids (int i * mx) (int i * mx + mx)
                 = take (nat mx) (drop (nat (int i * mx)) ids)"
      using mx0 by (rule py_slice_nonneg)
    moreover have "nat (int i * mx) = i * nat mx" using mx0 by (simp add: nat_mult_distrib)
    ultimately show ?thesis by simp
  qed
  have nov: "\<not> ov < mx" using assms by simp
  show "chunk_by_tokens tk text mx ov
           = Inr (filter (\<lambda>t. t \<noteq> [])
                   (map (\<lambda>i. py_strip (tk_decode tk (take (nat mx) (drop (i * nat mx) (tk_encode tk text)))))
                      [0..<range_len 0 (int (length (tk_encode tk text))) mx]))"
    unfolding chunk_by_tokens_eq[OF assms(1)] window_texts_def Let_def
    using nov sl by (simp add: ids_def)
  have "concat (map (\<lambda>i. take (nat mx) (drop (i * nat mx) ids)) [0..<m]) = take (m * nat mx) ids"
    by (rule concat_windows)
  moreover have "length ids \<le> m * nat mx"
  proof (cases "ids = []")
    case True then show ?thesis by simp
  next
    case False
    then have "0 < int (length ids)" by simp
    from range_len_last(3)[OF assms(1) this]
    have "int (length ids) \<le> int m * mx" by (simp add: m_def)
    then have "int (length ids) \<le> int (m * nat mx)" using mx0 by simp
    then show ?thesis by linarith
  qed
  ultimately show "concat (map (\<lambda>i. take (nat mx) (drop (i * nat mx) (tk_encode tk text)))
                  [0..<range_len 0 (int (length (tk_encode tk text))) mx])
           = tk_encode tk text"
    by (simp add: ids_def m_def)
qed

text \<open>
  Claim C10, run on five characters with \<open>max_tokens = 2\<close> and \<open>overlap = 5\<close>.
\<close>

theorem chunk_by_tokens_overlap_fallback_witness:
  "(0::int) < 2 \<and> (2::int) \<le> 5
   \<and> chunk_by_tokens char_tokenizer ''abcde'' 2 5 = Inr [''ab'', ''cd'', ''e'']
   \<and> concat [''ab'', ''cd'', ''e''] = ''abcde''"
proof -
  have h1: "(0::int) < 2" and h2: "(2::int) \<le> 5" by simp_all
  note t = chunk_by_tokens_overlap_fallback[OF h1 h2, of char_tokenizer "''abcde''"]
  have v: "filter (\<lambda>t. t \<noteq> [])
             (map (\<lambda>i. py_strip (tk_decode char_tokenizer
                     (take (nat 2) (drop (i * nat 2) (tk_encode char_tokenizer ''abcde'')))))
                [0..<range_len 0 (int (length (tk_encode char_tokenizer ''abcde''))) 2])
           = [''ab'', ''cd'', ''e'']"
    by code_simp
  have "chunk_by_tokens char_tokenizer ''abcde'' 2 5 = Inr [''ab'', ''cd'', ''e'']"
    using t v by (simp only:)
  then show ?thesis by simp
qed


section \<open>Properties of the range index builder\<close>

subsection \<open>Chains of ranges\<close>

lemma chain_snoc: "chain a b xs \<Longrightarrow> b < c \<Longrightarrow> chain a c (xs @ [(b, c)])"
  by (induction xs arbitrary: a) auto

lemma chain_bounds:
  "chain a b xs \<Longrightarrow> a \<le> b \<and> (\<forall>p\<in>set xs. a \<le> fst p \<and> fst p < snd p \<and> snd p \<le> b)"
proof (induction xs arbitrary: a)
  case Nil
  then show ?case by simp
next
  case (Cons p xs)
  obtain s e where p: "p = (s, e)" by (cases p)
  from Cons.prems p have c: "s = a" "s < e" "chain e b xs" by simp_all
  from Cons.IH[OF c(3)] have "e \<le> b" "\<forall>q\<in>set xs. e \<le> fst q \<and> fst q < snd q \<and> snd q \<le> b"
    by simp_all
  then show ?case using c p by force
qed

lemma chain_sorted_wrt: "chain a b xs \<Longrightarrow> sorted_wrt (\<lambda>p q. snd p \<le> fst q) xs"
proof (induction xs arbitrary: a)
  case Nil
  then show ?case by simp
next
  case (Cons p xs)
  obtain s e where p: "p = (s, e)" by (cases p)
  from Cons.prems p have c: "chain e b xs" by simp
  from chain_bounds[OF c] have "\<forall>q\<in>set xs. e \<le> fst q" by simp
  then show ?case using Cons.IH[OF c] p by simp
qed

lemma chain_cover:
  assumes "chain a b xs" "a \<le> r" "r < b"
  shows "\<exists>!i. i < length xs \<and> fst (xs ! i) \<le> r \<and> r < snd (xs ! i)"
  using assms
proof (induction xs arbitrary: a)
  case Nil
  then show ?case by simp
next
  case (Cons p xs)
  obtain s e where p: "p = (s, e)" by (cases p)
  from Cons.prems p have c: "s = a" "s < e" "chain e b xs" by simp_all
  note bd = chain_bounds[OF c(3)]
  show ?case
  proof (cases "r < e")
    case True
    show ?thesis
    proof (rule ex1I[of _ 0])
      show "0 < length (p # xs) \<and> fst ((p # xs) ! 0) \<le> r \<and> r < snd ((p # xs) ! 0)"
        using True c Cons.prems p by simp
    next
      fix i assume i: "i < length (p # xs) \<and> fst ((p # xs) ! i) \<le> r \<and> r < snd ((p # xs) ! i)"
      show "i = 0"
      proof (cases i)
        case 0 then show ?thesis .
      next
        case (Suc j)
        then have "j < length xs" "fst (xs ! j) \<le> r" using i by simp_all
        moreover have "e \<le> fst (xs ! j)" using bd \<open>j < length xs\<close> by simp
        ultimately show ?thesis using True by simp
      qed
    qed
  next
    case False
    then have er: "e \<le> r" by simp
    from Cons.IH[OF c(3) er Cons.prems(3)]
    obtain j where j: "j < length xs \<and> fst (xs ! j) \<le> r \<and> r < snd (xs ! j)"
      and u: "\<And>k. k < length xs \<and> fst (xs ! k) \<le> r \<and> r < snd (xs ! k) \<Longrightarrow> k = j"
      by (auto elim: ex1E)
    show ?thesis
    proof (rule ex1I[of _ "Suc j"])
      show "Suc j < length (p # xs) \<and> fst ((p # xs) ! Suc j) \<le> r \<and> r < snd ((p # xs) ! Suc j)"
        using j by simp
    next
      fix i assume i: "i < length (p # xs) \<and> fst ((p # xs) ! i) \<le> r \<and> r < snd ((p # xs) ! i)"
      show "i = Suc j"
      proof (cases i)
        case 0
        then show ?thesis using i p False by simp
      next
        case (Suc k)
        then have "k < length xs \<and> fst (xs ! k) \<le> r \<and> r < snd (xs ! k)" using i by simp
        then show ?thesis using u Suc by simp
      qed
    qed
  qed
qed

lemma chain_spec_ranges: "chain c (c + int (sum_list ms)) (spec_ranges c ms)"
proof (induction ms arbitrary: c)
  case Nil
  then show ?case by simp
next
  case (Cons m ms)
  show ?case
  proof (cases "m = 0")
    case True
    then show ?thesis using Cons.IH[of c] by simp
  next
    case False
    have "c + int m + int (sum_list ms) = c + int (sum_list (m # ms))" by simp
    then show ?thesis using False Cons.IH[of "c + int m"] by (simp add: add.assoc)
  qed
qed

lemma chain_append: "chain a b xs \<Longrightarrow> chain b c ys \<Longrightarrow> chain a c (xs @ ys)"
  by (induction xs arbitrary: a) auto

subsection \<open>The chunking loop of the builder\<close>

lemma chunk_by_tokens_256_32:
  "chunk_by_tokens tk body 256 32 = Inr (filter (\<lambda>t. t \<noteq> []) (window_texts tk body 256 32))"
  by (rule chunk_by_tokens_eq) simp

lemma chunk_count_eq:
  "chunk_count tk body = length (filter (\<lambda>t. t \<noteq> []) (window_texts tk body 256 32))"
  by (simp add: chunk_count_def chunk_by_tokens_256_32)

lemma index_work_skip:
  assumes "chunk_count tk body = 0"
  shows "index_work tk st (wid, ttl, body) = Inr st"
  using assms by (simp add: index_work_def chunk_by_tokens_256_32 chunk_count_eq)

lemma index_work_emit:
  assumes "chunk_count tk body \<noteq> 0"
  shows "\<exists>cs. length cs = chunk_count tk body \<and>
           index_work tk st (wid, ttl, body)
             = Inr \<lparr> all_chunks = all_chunks st @ cs,
                     all_work_ids = all_work_ids st @ replicate (chunk_count tk body) wid,
                     works_index = works_index st @
                       [\<lparr> work_id = wid, title = ttl, start_row = row_cursor st,
                          end_row = row_cursor st + int (chunk_count tk body) \<rparr>],
                     row_cursor = row_cursor st + int (chunk_count tk body) \<rparr>"
  using assms
  by (intro exI[of _ "filter (\<lambda>t. t \<noteq> []) (window_texts tk body 256 32)"])
     (simp add: index_work_def chunk_by_tokens_256_32 chunk_count_eq Let_def)

lemma index_works_inv:
  assumes "row_cursor st = int (length (all_chunks st))"
      and "all_work_ids st = index_work_ids (works_index st)"
      and "length (all_work_ids st) = length (all_chunks st)"
  shows "\<exists>st'. index_works tk st ws = Inr st'
     \<and> map row_range (works_index st')
         = map row_range (works_index st)
           @ spec_ranges (row_cursor st) (map (\<lambda>w. chunk_count tk (snd (snd w))) ws)
     \<and> row_cursor st'
         = row_cursor st + int (sum_list (map (\<lambda>w. chunk_count tk (snd (snd w))) ws))
     \<and> row_cursor st' = int (length (all_chunks st'))
     \<and> all_work_ids st' = index_work_ids (works_index st')
     \<and> length (all_work_ids st') = length (all_chunks st')"
  using assms
proof (induction ws arbitrary: st)
  case Nil
  then show ?case by simp
next
  case (Cons w ws)
  obtain wid ttl body where w: "w = (wid, ttl, body)" by (cases w)
  show ?case
  proof (cases "chunk_count tk body = 0")
    case True
    have s: "index_works tk st (w # ws) = index_works tk st ws"
      using index_work_skip[OF True] w by simp
    from Cons.IH[OF Cons.prems] show ?thesis
      unfolding s using True w by simp
  next
    case False
    define m where "m = chunk_count tk body"
    from index_work_emit[OF False, of st wid ttl] obtain cs where
      cs: "length cs = m" and
      e: "index_work tk st (wid, ttl, body)
             = Inr \<lparr> all_chunks = all_chunks st @ cs,
                     all_work_ids = all_work_ids st @ replicate m wid,
                     works_index = works_index st @
                       [\<lparr> work_id = wid, title = ttl, start_row = row_cursor st,
                          end_row = row_cursor st + int m \<rparr>],
                     row_cursor = row_cursor st + int m \<rparr>"
      unfolding m_def by blast
    define st1 where "st1 = \<lparr> all_chunks = all_chunks st @ cs,
                     all_work_ids = all_work_ids st @ replicate m wid,
                     works_index = works_index st @
                       [\<lparr> work_id = wid, title = ttl, start_row = row_cursor st,
                          end_row = row_cursor st + int m \<rparr>],
                     row_cursor = row_cursor st + int m \<rparr>"
    have s: "index_works tk st (w # ws) = index_works tk st1 ws"
      using e w by (simp add: st1_def)
    have i1: "row_cursor st1 = int (length (all_chunks st1))"
      using Cons.prems(1) cs by (simp add: st1_def)
    have i2: "all_work_ids st1 = index_work_ids (works_index st1)"
      using Cons.prems(2) by (simp add: st1_def index_work_ids_def)
    have i3: "length (all_work_ids st1) = length (all_chunks st1)"
      using Cons.prems(3) cs by (simp add: st1_def)
    from Cons.IH[OF i1 i2 i3] obtain st' where
      r: "index_works tk st1 ws = Inr st'"
         "map row_range (works_index st')
           = map row_range (works_index st1)
             @ spec_ranges (row_cursor st1) (map (\<lambda>w. chunk_count tk (snd (snd w))) ws)"
         "row_cursor st'
           = row_cursor st1 + int (sum_list (map (\<lambda>w. chunk_count tk (snd (snd w))) ws))"
         "row_cursor st' = int (length (all_chunks st'))"
         "all_work_ids st' = index_work_ids (works_index st')"
         "length (all_work_ids st') = length (all_chunks st')"
      by blast
    have a: "map row_range (works_index st')
         = map row_range (works_index st)
           @ spec_ranges (row_cursor st) (map (\<lambda>w. chunk_count tk (snd (snd w))) (w # ws))"
      using r(2) False w by (simp add: st1_def row_range_def m_def)
    have b: "row_cursor st'
         = row_cursor st + int (sum_list (map (\<lambda>w. chunk_count tk (snd (snd w))) (w # ws)))"
      using r(3) w by (simp add: st1_def m_def)
    show ?thesis unfolding s using r(1) a b r(4) r(5) r(6) by blast
  qed
qed

lemma enumerate_counts:
  "map (\<lambda>w. f (snd (snd w))) (py_enumerate works) = map (\<lambda>w. f (snd w)) works"
proof -
  have "map snd (py_enumerate works) = works"
    by (simp add: py_enumerate_def)
  then have "map (\<lambda>w. f (snd w)) (map snd (py_enumerate works)) = map (\<lambda>w. f (snd w)) works"
    by simp
  then show ?thesis by (simp add: comp_def)
qed

subsection \<open>The range index\<close>

lemma sorted_starts:
  assumes "sorted_wrt (\<lambda>p q. snd p \<le> fst q) xs" "\<forall>p\<in>set xs. fst p < (snd p :: int)"
  shows "sorted (map fst xs)"
proof -
  have "sorted_wrt (\<lambda>p q. fst p \<le> fst q) xs"
    by (rule sorted_wrt_mono_rel[OF _ assms(1)]) (use assms(2) in force)
  then show ?thesis by (simp add: sorted_map)
qed

text \<open>
  Claim C5. For every list of works, the chunking loop of the builder returns, and its
  range index is the one the specification describes: the cursor starts at 0, a work
  with no chunk adds no entry and leaves the cursor, a work with \<open>m > 0\<close> chunks adds
  the entry \<open>(cursor, cursor + m)\<close> and moves the cursor by \<open>m\<close>. The cursor ends at
  the number of rows; the work ids of the rows are those of the entries, each repeated
  over its range; the entries are sorted by \<open>start_row\<close>, each ends before the next
  starts, each is a non-empty range of assigned rows, and every assigned row lies in
  exactly one entry.
\<close>

theorem range_index_builder:
  "\<exists>st. chunk_works tk works = Inr st
     \<and> map row_range (works_index st) = spec_ranges 0 (map (\<lambda>w. chunk_count tk (snd w)) works)
     \<and> row_cursor st = int (sum_list (map (\<lambda>w. chunk_count tk (snd w)) works))
     \<and> row_cursor st = int (length (all_chunks st))
     \<and> all_work_ids st = index_work_ids (works_index st)
     \<and> length (all_work_ids st) = length (all_chunks st)
     \<and> sorted (map start_row (works_index st))
     \<and> sorted_wrt (\<lambda>a b. end_row a \<le> start_row b) (works_index st)
     \<and> (\<forall>e\<in>set (works_index st). 0 \<le> start_row e \<and> start_row e < end_row e
                                     \<and> end_row e \<le> row_cursor st)
     \<and> (\<forall>r. 0 \<le> r \<and> r < row_cursor st \<longrightarrow>
           (\<exists>!i. i < length (works_index st)
                \<and> start_row (works_index st ! i) \<le> r \<and> r < end_row (works_index st ! i)))"
proof -
  define ms where "ms = map (\<lambda>w. chunk_count tk (snd w)) works"
  have i: "row_cursor init_state = int (length (all_chunks init_state))"
          "all_work_ids init_state = index_work_ids (works_index init_state)"
          "length (all_work_ids init_state) = length (all_chunks init_state)"
    by (simp_all add: init_state_def index_work_ids_def)
  from index_works_inv[OF i, of tk "py_enumerate works"] obtain st where
    r: "index_works tk init_state (py_enumerate works) = Inr st"
       "map row_range (works_index st) = spec_ranges 0 ms"
       "row_cursor st = int (sum_list ms)"
       "row_cursor st = int (length (all_chunks st))"
       "all_work_ids st = index_work_ids (works_index st)"
       "length (all_work_ids st) = length (all_chunks st)"
    unfolding enumerate_counts ms_def by (auto simp: init_state_def)
  define rs where "rs = map row_range (works_index st)"
  have ch: "chain 0 (row_cursor st) rs"
    using chain_spec_ranges[of 0 ms] r(2) r(3) by (simp add: rs_def)
  note bd = chain_bounds[OF ch]
  have sw: "sorted_wrt (\<lambda>p q. snd p \<le> fst q) rs" by (rule chain_sorted_wrt[OF ch])
  have s1: "sorted (map fst rs)" by (rule sorted_starts[OF sw]) (use bd in simp)
  have a: "sorted (map start_row (works_index st))"
    using s1 by (simp add: rs_def row_range_def comp_def)
  have b: "sorted_wrt (\<lambda>a b. end_row a \<le> start_row b) (works_index st)"
    using sw by (simp add: rs_def sorted_wrt_map row_range_def)
  have c: "\<forall>e\<in>set (works_index st). 0 \<le> start_row e \<and> start_row e < end_row e
                                     \<and> end_row e \<le> row_cursor st"
    using bd by (simp add: rs_def row_range_def)
  have d: "\<forall>r. 0 \<le> r \<and> r < row_cursor st \<longrightarrow>
           (\<exists>!i. i < length (works_index st)
                \<and> start_row (works_index st ! i) \<le> r \<and> r < end_row (works_index st ! i))"
  proof (intro allI impI)
    fix r assume h: "0 \<le> r \<and> r < row_cursor st"
    from chain_cover[OF ch, of r] h
    have e: "\<exists>!i. i < length rs \<and> fst (rs ! i) \<le> r \<and> r < snd (rs ! i)" by simp
    have eq: "(i < length rs \<and> fst (rs ! i) \<le> r \<and> r < snd (rs ! i))
            = (i < length (works_index st)
                \<and> start_row (works_index st ! i) \<le> r \<and> r < end_row (works_index st ! i))" for i
      by (auto simp: rs_def row_range_def)
    show "\<exists>!i. i < length (works_index st)
                \<and> start_row (works_index st ! i) \<le> r \<and> r < end_row (works_index st ! i)"
      using e unfolding eq .
  qed
  have f: "chunk_works tk works = Inr st" using r(1) by (simp add: chunk_works_def)
  show ?thesis
    using f r(2) r(3) r(4) r(5) r(6) a b c d unfolding ms_def by blast
qed

text \<open>
  Claim C5, run on three works of which the second has no chunk: two entries,
  \<open>(0, 1)\<close> and \<open>(1, 2)\<close>, and row 1 lies in exactly one of them.
\<close>

theorem range_index_builder_witness:
  "\<exists>st. chunk_works char_tokenizer [(''A'', ''ab''), (''B'', ''''), (''C'', ''cde'')] = Inr st
     \<and> map row_range (works_index st) = [(0, 1), (1, 2)]
     \<and> row_cursor st = 2
     \<and> all_work_ids st = [0, 2]
     \<and> (\<exists>!i. i < length (works_index st)
                \<and> start_row (works_index st ! i) \<le> 1 \<and> 1 < end_row (works_index st ! i))"
proof -
  define W where "W = [(''A'', ''ab''), (''B'', ''''), (''C'', ''cde'')]"
  from range_index_builder[of char_tokenizer W] obtain st where
    r: "chunk_works char_tokenizer W = Inr st"
       "map row_range (works_index st) = spec_ranges 0 (map (\<lambda>w. chunk_count char_tokenizer (snd w)) W)"
       "row_cursor st = int (sum_list (map (\<lambda>w. chunk_count char_tokenizer (snd w)) W))"
       "all_work_ids st = index_work_ids (works_index st)"
       "\<forall>r. 0 \<le> r \<and> r < row_cursor st \<longrightarrow>
           (\<exists>!i. i < length (works_index st)
                \<and> start_row (works_index st ! i) \<le> r \<and> r < end_row (works_index st ! i))"
    by blast
  have ev: "chunk_works char_tokenizer [(''A'', ''ab''), (''B'', ''''), (''C'', ''cde'')]
     = Inr \<lparr> all_chunks = [''ab'', ''cde''], all_work_ids = [0, 2],
             works_index = [\<lparr> work_id = 0, title = ''A'', start_row = 0, end_row = 1 \<rparr>,
                            \<lparr> work_id = 2, title = ''C'', start_row = 1, end_row = 2 \<rparr>],
             row_cursor = 2 \<rparr>"
    by code_simp
  have st: "st = \<lparr> all_chunks = [''ab'', ''cde''], all_work_ids = [0, 2],
             works_index = [\<lparr> work_id = 0, title = ''A'', start_row = 0, end_row = 1 \<rparr>,
                            \<lparr> work_id = 2, title = ''C'', start_row = 1, end_row = 2 \<rparr>],
             row_cursor = 2 \<rparr>"
    using r(1) ev by (simp add: W_def)
  have c2: "row_cursor st = 2" and w2: "all_work_ids st = [0, 2]"
    and rr: "map row_range (works_index st) = [(0, 1), (1, 2)]"
    by (simp_all add: st row_range_def)
  have u: "\<exists>!i. i < length (works_index st)
                \<and> start_row (works_index st ! i) \<le> 1 \<and> 1 < end_row (works_index st ! i)"
    using r(5) c2 by simp
  have r1: "chunk_works char_tokenizer [(''A'', ''ab''), (''B'', ''''), (''C'', ''cde'')] = Inr st"
    using r(1) by (simp add: W_def)
  show ?thesis by (rule exI[of _ st]) (intro conjI r1 rr c2 w2 u)
qed


section \<open>Properties of the store writer and the builder\<close>

subsection \<open>What the writer checks\<close>

text \<open>
  Claim C6 fails as stated: \<open>write_hdf5\<close> writes a store whose only row has the work
  id 7 although the range index has no entry at all, so no entry covers that work id.
\<close>

theorem write_hdf5_unchecked_counterexample:
  "write_hdf5 Map.empty ''s.h5'' [''a''] [7] \<lparr> shape = [1, 1], cells = [[1 :: int]] \<rparr> [] []
     = Inr (Map.empty(''s.h5'' \<mapsto>
         \<lparr> h5_meta = [], h5_text = [''a''], h5_work_id = [7], h5_embedding = [[1]],
           h5_index = [] \<rparr>))"
  by (simp add: write_hdf5_def)

text \<open>
  Claim C6, amended. \<open>write_hdf5\<close> raises \<open>AssertionError\<close> when the numbers of chunk
  texts, of work ids and of embedding rows are not all equal, and \<open>ValueError\<close> when
  the embeddings are not a two-dimensional array (an array of that kind has rows of
  one length). A non-empty input with \<open>D \<ge> 1\<close> that passes these two checks is
  written as it is, whatever the range index holds. The rejection of an empty row set
  is in \<open>main\<close> of build\_shakespeare\_hdf5.py, which raises \<open>RuntimeError\<close> when the
  chunker returned no chunk.
\<close>

theorem write_hdf5_checks:
  "(shape E = n0 # rest \<and> \<not> (length chunks = n0 \<and> n0 = length work_ids) \<longrightarrow>
      write_hdf5 files p chunks work_ids E idx meta = Inl AssertionError)
   \<and> (shape E = n0 # rest \<and> length chunks = n0 \<and> n0 = length work_ids \<and> length rest \<noteq> 1 \<longrightarrow>
      write_hdf5 files p chunks work_ids E idx meta = Inl ValueError)
   \<and> (shape E = [N, D] \<and> 0 < N \<and> 0 < D \<and> length chunks = N \<and> length work_ids = N \<longrightarrow>
      write_hdf5 files p chunks work_ids E idx meta
        = Inr (files(p \<mapsto> \<lparr> h5_meta = meta, h5_text = chunks, h5_work_id = work_ids,
                              h5_embedding = cells E, h5_index = idx \<rparr>)))
   \<and> (chunk_text_by_tokens tk cleaned mx st = Inr [] \<longrightarrow>
      main_chunking tk cleaned mx st = Inl RuntimeError)"
proof (intro conjI impI)
  assume "shape E = n0 # rest \<and> \<not> (length chunks = n0 \<and> n0 = length work_ids)"
  then show "write_hdf5 files p chunks work_ids E idx meta = Inl AssertionError"
    by (auto simp: write_hdf5_def)
next
  assume a: "shape E = n0 # rest \<and> length chunks = n0 \<and> n0 = length work_ids \<and> length rest \<noteq> 1"
  then have "rest = [] \<or> (\<exists>x y zs. rest = x # y # zs)"
    by (cases rest; cases "tl rest") auto
  then show "write_hdf5 files p chunks work_ids E idx meta = Inl ValueError"
    using a by (auto simp: write_hdf5_def)
next
  assume "shape E = [N, D] \<and> 0 < N \<and> 0 < D \<and> length chunks = N \<and> length work_ids = N"
  then show "write_hdf5 files p chunks work_ids E idx meta
        = Inr (files(p \<mapsto> \<lparr> h5_meta = meta, h5_text = chunks, h5_work_id = work_ids,
                              h5_embedding = cells E, h5_index = idx \<rparr>))"
    by (simp add: write_hdf5_def)
next
  assume "chunk_text_by_tokens tk cleaned mx st = Inr []"
  then show "main_chunking tk cleaned mx st = Inl RuntimeError"
    by (simp add: main_chunking_def)
qed

text \<open>
  Claim C6, amended, run on a length mismatch, a one-dimensional array, a well-formed
  store of one row, and an empty text.
\<close>

theorem write_hdf5_checks_witness:
  "write_hdf5 Map.empty ''s.h5'' [''a'', ''b''] [0] \<lparr> shape = [1, 1], cells = [[1 :: int]] \<rparr> [] []
     = Inl AssertionError
   \<and> write_hdf5 Map.empty ''s.h5'' [''a''] [0] \<lparr> shape = [1], cells = [[1 :: int]] \<rparr> [] []
     = Inl ValueError
   \<and> write_hdf5 Map.empty ''s.h5'' [''a''] [0] \<lparr> shape = [1, 1], cells = [[1 :: int]] \<rparr>
        [\<lparr> work_id = 0, title = ''A'', start_row = 0, end_row = 1 \<rparr>] []
     = Inr (Map.empty(''s.h5'' \<mapsto>
         \<lparr> h5_meta = [], h5_text = [''a''], h5_work_id = [0], h5_embedding = [[1]],
           h5_index = [\<lparr> work_id = 0, title = ''A'', start_row = 0, end_row = 1 \<rparr>] \<rparr>))
   \<and> main_chunking char_tokenizer [] 256 64 = Inl RuntimeError"
proof -
  have e: "chunk_text_by_tokens char_tokenizer [] 256 64 = Inr []"
    by (simp add: chunk_text_by_tokens_def)
  note t1 = write_hdf5_checks[of "\<lparr> shape = [1, 1], cells = [[1 :: int]] \<rparr>" 1 "[1]"
      "[''a'', ''b'']" "[0]" Map.empty "''s.h5''" "[]" "[]" 1 1 char_tokenizer "[]" 256 64]
  note t2 = write_hdf5_checks[of "\<lparr> shape = [1], cells = [[1 :: int]] \<rparr>" 1 "[]"
      "[''a'']" "[0]" Map.empty "''s.h5''" "[]" "[]" 1 1 char_tokenizer "[]" 256 64]
  note t3 = write_hdf5_checks[of "\<lparr> shape = [1, 1], cells = [[1 :: int]] \<rparr>" 1 "[1]"
      "[''a'']" "[0]" Map.empty "''s.h5''"
      "[\<lparr> work_id = 0, title = ''A'', start_row = 0, end_row = 1 \<rparr>]" "[]" 1 1
      char_tokenizer "[]" 256 64]
  have a: "write_hdf5 Map.empty ''s.h5'' [''a'', ''b''] [0] \<lparr> shape = [1, 1], cells = [[1 :: int]] \<rparr> [] []
     = Inl AssertionError"
    using t1 by simp
  have b: "write_hdf5 Map.empty ''s.h5'' [''a''] [0] \<lparr> shape = [1], cells = [[1 :: int]] \<rparr> [] []
     = Inl ValueError"
    using t2 by simp
  have c: "write_hdf5 Map.empty ''s.h5'' [''a''] [0] \<lparr> shape = [1, 1], cells = [[1 :: int]] \<rparr>
        [\<lparr> work_id = 0, title = ''A'', start_row = 0, end_row = 1 \<rparr>] []
     = Inr (Map.empty(''s.h5'' \<mapsto>
         \<lparr> h5_meta = [], h5_text = [''a''], h5_work_id = [0], h5_embedding = [[1]],
           h5_index = [\<lparr> work_id = 0, title = ''A'', start_row = 0, end_row = 1 \<rparr>] \<rparr>))"
    using t3 by simp
  have d: "main_chunking char_tokenizer [] 256 64 = Inl RuntimeError"
    using t3 e by blast
  show ?thesis by (intro conjI a b c d)
qed

end
